theory Spec2Isabelle
  imports Main "HOL-Library.Sublist"
begin

section \<open>The porto container runtime adapter (package cruntime)\<close>

text \<open>
  A shallow embedding of the porto adapter. Go strings are byte sequences and are
  modelled as \<open>string\<close>. A Go function returning \<open>error\<close> returns \<open>error option\<close>
  (\<open>None\<close> for \<open>nil\<close>); a function returning \<open>(T, error)\<close> returns \<open>error + T\<close>.
\<close>

subsection \<open>Errors and log lines\<close>

text \<open>
  Error values keep how they were built. A formatted message is kept as its format
  string together with its argument instead of being rendered.
\<close>

datatype error =
    External string                 \<comment> \<open>an error handed back by a collaborator\<close>
  | ErrorsNew string                \<comment> \<open>\<open>errors.New(msg)\<close>\<close>
  | ErrorsWrap error string         \<comment> \<open>\<open>errors.Wrap(err, msg)\<close>, \<open>errors.Wrapf(err, msg)\<close>\<close>
  | ErrorsWrapfQ error string string  \<comment> \<open>\<open>errors.Wrapf(err, format, arg)\<close>, one \<open>%q\<close> verb\<close>
  | ErrorfQ string string           \<comment> \<open>\<open>fmt.Errorf(format, arg)\<close>, one \<open>%q\<close> verb\<close>
  | ErrorfW string error            \<comment> \<open>\<open>fmt.Errorf(format, err)\<close>, one \<open>%w\<close> verb\<close>

datatype severity = Info | Warning | Error

datatype logarg = ArgString string | ArgError error

type_synonym logline = "severity \<times> string \<times> logarg list"

subsection \<open>Version parser\<close>

text \<open>
  The pattern of \<open>parsePortoVersion\<close> is \<open>(\d\.\S*)\<close>: one decimal digit, a dot, then
  the longest run of non-whitespace. In Go's regexp syntax \<open>\d\<close> is \<open>[0-9]\<close> and \<open>\s\<close> is
  \<open>[\t\n\f\r ]\<close>.
\<close>

definition isDigit :: "char \<Rightarrow> bool" where
  "isDigit c = (c \<in> set ''0123456789'')"

definition isSpace :: "char \<Rightarrow> bool" where
  "isSpace c = (c \<in> set [CHR 0x09, CHR 0x0A, CHR 0x0C, CHR 0x0D, CHR 0x20])"

text \<open>The leftmost match of \<open>\d\.\S*\<close> in a line, if there is one.\<close>

fun leftmostMatch :: "string \<Rightarrow> string option" where
  "leftmostMatch (c # d # rest) =
     (if isDigit c \<and> d = CHR ''.''
      then Some (c # d # takeWhile (\<lambda>x. \<not> isSpace x) rest)
      else leftmostMatch (d # rest))"
| "leftmostMatch _ = None"

text \<open>
  \<open>FindStringSubmatch\<close> returns the whole match followed by the text of each group, or
  \<open>nil\<close> when the pattern does not match. The only group spans the whole pattern.
\<close>

definition FindStringSubmatch :: "string \<Rightarrow> string list" where
  "FindStringSubmatch line =
     (case leftmostMatch line of None \<Rightarrow> [] | Some m \<Rightarrow> [m, m])"

text \<open>The loop over the submatches returns in its first iteration.\<close>

definition parsePortoVersion :: "string \<Rightarrow> error + string" where
  "parsePortoVersion line =
     (case FindStringSubmatch line of
        v # _ \<Rightarrow> Inr v
      | [] \<Rightarrow> Inl (ErrorfQ ''unknown version: %q'' line))"

text \<open>
  The version token as the specification words it: the leftmost substring made of one
  or more digits, a dot, then non-whitespace characters.
\<close>

fun specDigitsDot :: "string \<Rightarrow> bool" where
  "specDigitsDot (c # d # rest) =
     (isDigit c \<and> (d = CHR ''.'' \<or> specDigitsDot (d # rest)))"
| "specDigitsDot _ = False"

fun specVersionToken :: "string \<Rightarrow> string option" where
  "specVersionToken [] = None"
| "specVersionToken (c # rest) =
     (if specDigitsDot (c # rest)
      then Some (takeWhile (\<lambda>x. \<not> isSpace x) (c # rest))
      else specVersionToken rest)"

subsection \<open>Host, collaborators and the trace of an operation\<close>

text \<open>
  \<open>command.RunResult\<close>: the captured standard output, and the text its method
  \<open>Output()\<close> returns. The body of \<open>Output()\<close> is not part of the sources, so its
  value is carried as a field.
\<close>

record RunResult =
  Stdout :: string
  Output :: string

text \<open>
  \<open>crictlImages\<close>, the shape \<open>json.Unmarshal\<close> fills: the images of the inventory,
  each with its identifier and its repository tags.
\<close>

record crictlImage =
  ID :: string
  RepoTags :: "string list"

record crictlImages =
  Images :: "crictlImage list"

text \<open>The calls an operation makes on the host, in the order it makes them.\<close>

datatype call =
    EvRunCmd "string list"               \<comment> \<open>\<open>Runner.RunCmd(exec.Command(...))\<close>\<close>
  | EvCheckKernelCompatibility int int   \<comment> \<open>\<open>CheckKernelCompatibility(runner, major, minor)\<close>\<close>
  | EvDisableOthers                      \<comment> \<open>\<open>disableOthers(r, runner)\<close>\<close>
  | EvPopulateCRIConfig string           \<comment> \<open>\<open>populateCRIConfig(runner, socket)\<close>\<close>
  | EvEnableIPForwarding                 \<comment> \<open>\<open>enableIPForwarding(runner)\<close>\<close>
  | EvInitRestart string                 \<comment> \<open>\<open>Init.Restart(name)\<close>\<close>
  | EvPullCRIImage string                \<comment> \<open>\<open>pullCRIImage(runner, name)\<close>\<close>

text \<open>
  The collaborators whose code is outside the adapter. What a call on the host answers
  may depend on every call made before it, so each answer is a function of the calls so
  far. \<open>Kubeadm\<close> (the image catalog), \<open>addRepoTagToImageName\<close> and \<open>json.Unmarshal\<close>
  into \<open>crictlImages\<close> compute without touching the host.
\<close>

record host =
  RunCmd :: "call list \<Rightarrow> string list \<Rightarrow> error + RunResult"
  CheckKernelCompatibility :: "call list \<Rightarrow> int \<Rightarrow> int \<Rightarrow> error option"
  disableOthers :: "call list \<Rightarrow> error option"
  populateCRIConfig :: "call list \<Rightarrow> string \<Rightarrow> error option"
  enableIPForwarding :: "call list \<Rightarrow> error option"
  InitRestart :: "call list \<Rightarrow> string \<Rightarrow> error option"
  pullCRIImage :: "call list \<Rightarrow> string \<Rightarrow> error option"
  Kubeadm :: "string \<Rightarrow> string \<Rightarrow> error + string list"
  addRepoTagToImageName :: "string \<Rightarrow> string"
  jsonUnmarshal :: "string \<Rightarrow> error + crictlImages"

text \<open>What an operation leaves behind: the calls made on the host and the lines logged.\<close>

record trace =
  calls :: "call list"
  klog :: "logline list"

definition invoke :: "call \<Rightarrow> 'a \<Rightarrow> trace \<Rightarrow> 'a \<times> trace" where
  "invoke c answer s = (answer, s\<lparr>calls := calls s @ [c]\<rparr>)"

definition klogf :: "severity \<Rightarrow> string \<Rightarrow> logarg list \<Rightarrow> trace \<Rightarrow> trace" where
  "klogf sev format args s = s\<lparr>klog := klog s @ [(sev, format, args)]\<rparr>"

definition runCmd :: "host \<Rightarrow> string list \<Rightarrow> trace \<Rightarrow> (error + RunResult) \<times> trace" where
  "runCmd h c s = invoke (EvRunCmd c) (RunCmd h (calls s) c) s"

definition checkKernel :: "host \<Rightarrow> int \<Rightarrow> int \<Rightarrow> trace \<Rightarrow> error option \<times> trace" where
  "checkKernel h major minor s =
     invoke (EvCheckKernelCompatibility major minor)
       (CheckKernelCompatibility h (calls s) major minor) s"

definition initRestart :: "host \<Rightarrow> string \<Rightarrow> trace \<Rightarrow> error option \<times> trace" where
  "initRestart h name s = invoke (EvInitRestart name) (InitRestart h (calls s) name) s"

text \<open>\<open>strings.Contains(s, substr)\<close>: \<open>substr\<close> occurs within \<open>s\<close>.\<close>

definition stringsContains :: "string \<Rightarrow> string \<Rightarrow> bool" where
  "stringsContains s substr = sublist substr s"

subsection \<open>The adapter\<close>

text \<open>
  The \<open>Porto\<close> handle. Its \<open>Runner\<close> and \<open>Init\<close> are interfaces; what they do is in the
  \<open>host\<close>. The Kubernetes version is only passed on, and kept as text.
\<close>

record Porto =
  Socket :: string
  ImageRepository :: string
  KubernetesVersion :: string
  InsecureRegistry :: "string list"

text \<open>
  The two fields \<open>Preload\<close> reads from \<open>cc.KubernetesConfig\<close>:
  \<open>KubernetesVersion\<close> and \<open>ImageRepository\<close>.
\<close>

record KubernetesConfig =
  kcKubernetesVersion :: string
  kcImageRepository :: string

record ClusterConfig =
  KubernetesConfig :: KubernetesConfig

definition SocketPath :: "Porto \<Rightarrow> string" where
  "SocketPath r = (if Socket r \<noteq> [] then Socket r else ''/run/portoshim.sock'')"

definition generatePortoConfig ::
  "string \<Rightarrow> string \<Rightarrow> string \<Rightarrow> string list \<Rightarrow> bool \<Rightarrow> trace \<Rightarrow> error option \<times> trace" where
  "generatePortoConfig imageRepository kv cgroupDriver insecureRegistry inUserNamespace s =
     (None, s)"

definition PullImage :: "host \<Rightarrow> Porto \<Rightarrow> string \<Rightarrow> trace \<Rightarrow> error option \<times> trace" where
  "PullImage h r name s = invoke (EvPullCRIImage name) (pullCRIImage h (calls s) name) s"

definition Restart :: "host \<Rightarrow> Porto \<Rightarrow> trace \<Rightarrow> error option \<times> trace" where
  "Restart h r s = initRestart h ''porto'' s"

text \<open>\<open>Enable\<close>, first part: the kernel checks of rootless mode.\<close>

definition enableKernelGates :: "host \<Rightarrow> bool \<Rightarrow> trace \<Rightarrow> error option \<times> trace" where
  "enableKernelGates h inUserNamespace s =
     (if inUserNamespace then
        (case checkKernel h 5 11 s of
           (Some err, s1) \<Rightarrow>
             (Some (ErrorfW ''kernel >= 5.11 is required for rootless mode: %w'' err), s1)
         | (None, s1) \<Rightarrow>
             (case checkKernel h 5 13 s1 of
                (Some err, s2) \<Rightarrow>
                  (None, klogf Warning ''kernel >= 5.13 is recommended for rootless mode %v''
                           [ArgError err] s2)
              | (None, s2) \<Rightarrow> (None, s2)))
      else (None, s))"

text \<open>
  \<open>Enable\<close>, second part: the other runtimes, the CRI configuration, the generated
  configuration, IP forwarding and the restart of the service.
\<close>

definition enableHostSetup ::
  "host \<Rightarrow> Porto \<Rightarrow> bool \<Rightarrow> string \<Rightarrow> bool \<Rightarrow> trace \<Rightarrow> error option \<times> trace" where
  "enableHostSetup h r disOthers cgroupDriver inUserNamespace s =
     (let s1 =
        (if disOthers then
           (case invoke EvDisableOthers (disableOthers h (calls s)) s of
              (Some err, s') \<Rightarrow> klogf Warning ''disableOthers: %v'' [ArgError err] s'
            | (None, s') \<Rightarrow> s')
         else s)
      in
      case invoke (EvPopulateCRIConfig (SocketPath r))
             (populateCRIConfig h (calls s1) (SocketPath r)) s1 of
        (Some err, s2) \<Rightarrow> (Some err, s2)
      | (None, s2) \<Rightarrow>
          (case generatePortoConfig (ImageRepository r) (KubernetesVersion r) cgroupDriver
                  (InsecureRegistry r) inUserNamespace s2 of
             (Some err, s3) \<Rightarrow> (Some err, s3)
           | (None, s3) \<Rightarrow>
               (case invoke EvEnableIPForwarding (enableIPForwarding h (calls s3)) s3 of
                  (Some err, s4) \<Rightarrow> (Some err, s4)
                | (None, s4) \<Rightarrow>
                    (case initRestart h ''porto'' s4 of
                       (Some err, s5) \<Rightarrow> (Some err, s5)
                     | (None, s5) \<Rightarrow> (None, s5)))))"

text \<open>\<open>Enable\<close>, last part: the pause image.\<close>

definition enablePauseImage :: "host \<Rightarrow> Porto \<Rightarrow> trace \<Rightarrow> error option \<times> trace" where
  "enablePauseImage h r s =
     (case PullImage h r ''registry.k8s.io/pause:3.7'' s of
        (Some err, s') \<Rightarrow> (Some (ErrorsWrap err ''pulling pause image''), s')
      | (None, s') \<Rightarrow> (None, s'))"

text \<open>Everything \<open>Enable\<close> does after the kernel checks.\<close>

definition enableAfterGates ::
  "host \<Rightarrow> Porto \<Rightarrow> bool \<Rightarrow> string \<Rightarrow> bool \<Rightarrow> trace \<Rightarrow> error option \<times> trace" where
  "enableAfterGates h r disOthers cgroupDriver inUserNamespace s =
     (case enableHostSetup h r disOthers cgroupDriver inUserNamespace s of
        (Some err, s') \<Rightarrow> (Some err, s')
      | (None, s') \<Rightarrow> enablePauseImage h r s')"

definition Enable ::
  "host \<Rightarrow> Porto \<Rightarrow> bool \<Rightarrow> string \<Rightarrow> bool \<Rightarrow> trace \<Rightarrow> error option \<times> trace" where
  "Enable h r disOthers cgroupDriver inUserNamespace s =
     (case enableKernelGates h inUserNamespace s of
        (Some err, s') \<Rightarrow> (Some err, s')
      | (None, s') \<Rightarrow> enableAfterGates h r disOthers cgroupDriver inUserNamespace s')"

text \<open>Telling the kernel checks from the other calls.\<close>

fun isKernelCheck :: "call \<Rightarrow> bool" where
  "isKernelCheck (EvCheckKernelCompatibility major minor) = True"
| "isKernelCheck _ = False"

definition ImageExists :: "host \<Rightarrow> Porto \<Rightarrow> string \<Rightarrow> string \<Rightarrow> trace \<Rightarrow> bool \<times> trace" where
  "ImageExists h r name sha s =
     (let s0 = klogf Info ''Checking existence of image with name %q and sha %q''
                 [ArgString name, ArgString sha] s
      in
      case runCmd h [''sudo'', ''portoctl'', ''docker-images''] s0 of
        (Inl err, s1) \<Rightarrow> (False, s1)
      | (Inr rr, s1) \<Rightarrow>
          (if \<not> stringsContains (Output rr) name \<or>
              (sha \<noteq> [] \<and> \<not> stringsContains (Output rr) sha)
           then (False, s1)
           else (True, s1)))"

definition LoadImage :: "host \<Rightarrow> Porto \<Rightarrow> string \<Rightarrow> trace \<Rightarrow> error option \<times> trace" where
  "LoadImage h r path s = (Some (ErrorsNew ''not implemented''), s)"

definition SaveImage ::
  "host \<Rightarrow> Porto \<Rightarrow> string \<Rightarrow> string \<Rightarrow> trace \<Rightarrow> error option \<times> trace" where
  "SaveImage h r name path s = (Some (ErrorsNew ''not implemented''), s)"

definition TagImage ::
  "host \<Rightarrow> Porto \<Rightarrow> string \<Rightarrow> string \<Rightarrow> trace \<Rightarrow> error option \<times> trace" where
  "TagImage h r source target s = (Some (ErrorsNew ''not implemented''), s)"

definition BuildImage ::
  "host \<Rightarrow> Porto \<Rightarrow> string \<Rightarrow> string \<Rightarrow> string \<Rightarrow> bool \<Rightarrow> string list \<Rightarrow> string list \<Rightarrow>
   trace \<Rightarrow> error option \<times> trace" where
  "BuildImage h r src file tag push env opts s = (Some (ErrorsNew ''not implemented''), s)"

definition PushImage :: "host \<Rightarrow> Porto \<Rightarrow> string \<Rightarrow> trace \<Rightarrow> error option \<times> trace" where
  "PushImage h r name s = (Some (ErrorsNew ''not implemented''), s)"

subsection \<open>Preload and the inventory matcher\<close>

text \<open>
  The loop over the tags of one inventory entry. The required name \<open>i\<close> is overwritten
  with its normalization before every comparison; the loop hands back \<open>found\<close> and \<open>i\<close>.
\<close>

fun tagsLoop :: "(string \<Rightarrow> string) \<Rightarrow> string \<Rightarrow> string list \<Rightarrow> bool \<times> string" where
  "tagsLoop norm i [] = (False, i)"
| "tagsLoop norm i (rt # rts) =
     (let i' = norm i in if i' = rt then (True, i') else tagsLoop norm i' rts)"

text \<open>The loop over the inventory entries, left as soon as a tag was found.\<close>

fun entriesLoop :: "(string \<Rightarrow> string) \<Rightarrow> string \<Rightarrow> crictlImage list \<Rightarrow> bool \<times> string" where
  "entriesLoop norm i [] = (False, i)"
| "entriesLoop norm i (ji # jis) =
     (case tagsLoop norm i (RepoTags ji) of
        (True, i') \<Rightarrow> (True, i')
      | (False, i') \<Rightarrow> entriesLoop norm i' jis)"

text \<open>The loop over the required images.\<close>

fun imagesLoop :: "host \<Rightarrow> string list \<Rightarrow> crictlImage list \<Rightarrow> trace \<Rightarrow> bool \<times> trace" where
  "imagesLoop h [] inventory s =
     (True, klogf Info ''all images are preloaded for porto runtime.'' [] s)"
| "imagesLoop h (i # images) inventory s =
     (case entriesLoop (addRepoTagToImageName h) i inventory of
        (True, i') \<Rightarrow> imagesLoop h images inventory s
      | (False, i') \<Rightarrow>
          (False,
           klogf Info
             (''couldn'' @ [CHR 0x27] @
              ''t find preloaded image for %q. assuming images are not preloaded.'')
             [ArgString i'] s))"

definition crictlImagesCmd :: "string list" where
  "crictlImagesCmd = [''sudo'', ''crictl'', ''images'', ''--output'', ''json'']"

definition portoImagesPreloaded :: "host \<Rightarrow> string list \<Rightarrow> trace \<Rightarrow> bool \<times> trace" where
  "portoImagesPreloaded h images s =
     (case runCmd h crictlImagesCmd s of
        (Inl err, s1) \<Rightarrow> (False, s1)
      | (Inr rr, s1) \<Rightarrow>
          (case jsonUnmarshal h (Stdout rr) of
             Inl err \<Rightarrow>
               (False,
                klogf Error
                  ''failed to unmarshal images, will assume images are not preloaded'' [] s1)
           | Inr jsonImages \<Rightarrow> imagesLoop h images (Images jsonImages) s1))"

text \<open>The pull loop of \<open>Preload\<close>: it returns at the first pull that fails.\<close>

fun pullLoop :: "host \<Rightarrow> Porto \<Rightarrow> string list \<Rightarrow> trace \<Rightarrow> error option \<times> trace" where
  "pullLoop h r [] s = (None, s)"
| "pullLoop h r (img # imageList) s =
     (case PullImage h r img s of
        (Some err, s') \<Rightarrow> (Some (ErrorsWrapfQ err ''pulling image %q'' img), s')
      | (None, s') \<Rightarrow> pullLoop h r imageList s')"

definition Preload :: "host \<Rightarrow> Porto \<Rightarrow> ClusterConfig \<Rightarrow> trace \<Rightarrow> error option \<times> trace" where
  "Preload h r cc s =
     (let k8sVersion = kcKubernetesVersion (KubernetesConfig cc) in
      case Kubeadm h (kcImageRepository (KubernetesConfig cc)) k8sVersion of
        Inl err \<Rightarrow> (Some (ErrorsWrap err ''getting images''), s)
      | Inr imageList \<Rightarrow>
          (case portoImagesPreloaded h imageList s of
             (True, s1) \<Rightarrow>
               (None, klogf Info ''Images already preloaded, skipping extraction'' [] s1)
           | (False, s1) \<Rightarrow>
               (case pullLoop h r imageList s1 of
                  (Some err, s2) \<Rightarrow> (Some err, s2)
                | (None, s2) \<Rightarrow> Restart h r s2)))"

subsection \<open>The inventory matcher as the specification words it\<close>

text \<open>
  Every required image is present in at least one entry's tag set, the normalization
  being applied to the requirement and to the candidate tag before they are compared.
\<close>

definition specMatch :: "(string \<Rightarrow> string) \<Rightarrow> string list \<Rightarrow> crictlImage list \<Rightarrow> bool" where
  "specMatch norm images inventory =
     list_all (\<lambda>i. list_ex (\<lambda>ji. list_ex (\<lambda>rt. norm i = norm rt) (RepoTags ji)) inventory)
       images"

subsection \<open>Concrete hosts\<close>

text \<open>
  Modelled from the spec: the body of \<open>addRepoTagToImageName\<close> is not part of the
  sources. The specification calls it the runtime's "add default tag/repository"
  normalization; here a name with no registry part \<open>.io/\<close> gets the default repository
  \<open>docker.io/\<close> in front, and any other name is left as it is.
\<close>

definition defaultRepoTag :: "string \<Rightarrow> string" where
  "defaultRepoTag imgName =
     (if \<not> stringsContains imgName ''.io/'' then ''docker.io/'' @ imgName else imgName)"

text \<open>
  A host on which every call succeeds: commands print nothing, the catalog and the
  inventory are empty.
\<close>

definition quietHost :: host where
  "quietHost =
     \<lparr>RunCmd = (\<lambda>past c. Inr \<lparr>Stdout = [], Output = []\<rparr>),
      CheckKernelCompatibility = (\<lambda>past major minor. None),
      disableOthers = (\<lambda>past. None),
      populateCRIConfig = (\<lambda>past socket. None),
      enableIPForwarding = (\<lambda>past. None),
      InitRestart = (\<lambda>past name. None),
      pullCRIImage = (\<lambda>past name. None),
      Kubeadm = (\<lambda>repo version. Inr []),
      addRepoTagToImageName = defaultRepoTag,
      jsonUnmarshal = (\<lambda>bytes. Inr \<lparr>Images = []\<rparr>)\<rparr>"

definition startTrace :: trace where
  "startTrace = \<lparr>calls = [], klog = []\<rparr>"

definition porto0 :: Porto where
  "porto0 = \<lparr>Socket = [], ImageRepository = [], KubernetesVersion = ''1.26.1'',
             InsecureRegistry = []\<rparr>"

text \<open>Variations of it, one collaborator changed at a time.\<close>

definition printingHost :: "string \<Rightarrow> host" where
  "printingHost out = quietHost\<lparr>RunCmd := (\<lambda>past c. Inr \<lparr>Stdout = out, Output = out\<rparr>)\<rparr>"

definition brokenRunnerHost :: host where
  "brokenRunnerHost = quietHost\<lparr>RunCmd := (\<lambda>past c. Inl (External ''exit status 1''))\<rparr>"

definition garbledHost :: host where
  "garbledHost =
     quietHost\<lparr>jsonUnmarshal := (\<lambda>bytes. Inl (External ''unexpected end of JSON input''))\<rparr>"

definition inventoryHost :: "crictlImage list \<Rightarrow> host" where
  "inventoryHost inventory = quietHost\<lparr>jsonUnmarshal := (\<lambda>bytes. Inr \<lparr>Images = inventory\<rparr>)\<rparr>"

definition catalogHost :: "string list \<Rightarrow> crictlImage list \<Rightarrow> host" where
  "catalogHost imageList inventory =
     (inventoryHost inventory)\<lparr>Kubeadm := (\<lambda>repo version. Inr imageList)\<rparr>"

definition refusingPullHost :: "string \<Rightarrow> host \<Rightarrow> host" where
  "refusingPullHost bad h =
     h\<lparr>pullCRIImage :=
         (\<lambda>past name. if name = bad then Some (External ''pull failed'') else None)\<rparr>"

definition oldKernelHost :: "int \<Rightarrow> host" where
  "oldKernelHost hostMinor =
     quietHost\<lparr>CheckKernelCompatibility :=
         (\<lambda>past major minor.
            if hostMinor < minor then Some (External ''kernel too old'') else None)\<rparr>"

definition inventory12 :: "crictlImage list" where
  "inventory12 =
     [\<lparr>ID = ''sha256:01'', RepoTags = [''docker.io/img:v1'']\<rparr>,
      \<lparr>ID = ''sha256:02'', RepoTags = [''registry.k8s.io/pause:3.7'', ''docker.io/img:v2'']\<rparr>]"

definition config0 :: ClusterConfig where
  "config0 =
     \<lparr>KubernetesConfig = \<lparr>kcKubernetesVersion = ''v1.26.1'', kcImageRepository = []\<rparr>\<rparr>"

section \<open>Properties\<close>

subsection \<open>Version parser\<close>

lemma leftmostMatch_None_iff:
  "leftmostMatch line = None \<longleftrightarrow>
     \<not> (\<exists>pre c post. line = pre @ c # CHR ''.'' # post \<and> isDigit c)"
proof (induction line rule: leftmostMatch.induct)
  case (1 c d rest)
  show ?case
  proof (cases "isDigit c \<and> d = CHR ''.''")
    case True
    then have "c # d # rest = [] @ c # CHR ''.'' # rest \<and> isDigit c" by simp
    then have "\<exists>pre c' post. c # d # rest = pre @ c' # CHR ''.'' # post \<and> isDigit c'"
      by blast
    with True show ?thesis by simp
  next
    case False
    have "(\<exists>pre c' post. c # d # rest = pre @ c' # CHR ''.'' # post \<and> isDigit c') \<longleftrightarrow>
          (\<exists>pre c' post. d # rest = pre @ c' # CHR ''.'' # post \<and> isDigit c')"
      (is "?L \<longleftrightarrow> ?R")
    proof
      assume ?L
      then obtain pre c' post where
        e: "c # d # rest = pre @ c' # CHR ''.'' # post" and dg: "isDigit c'"
        by blast
      show ?R
      proof (cases pre)
        case Nil
        with e dg False show ?thesis by simp
      next
        case (Cons p ps)
        with e have "d # rest = ps @ c' # CHR ''.'' # post" by simp
        with dg show ?thesis by blast
      qed
    next
      assume ?R
      then obtain pre c' post where
        e: "d # rest = pre @ c' # CHR ''.'' # post" and dg: "isDigit c'"
        by blast
      then have "c # d # rest = (c # pre) @ c' # CHR ''.'' # post" by simp
      with dg show ?L by blast
    qed
    moreover have "leftmostMatch (c # d # rest) = leftmostMatch (d # rest)"
      using False by auto
    moreover have "leftmostMatch (d # rest) = None \<longleftrightarrow> \<not> ?R"
      using 1 False by blast
    ultimately show ?thesis by presburger
  qed
qed simp_all

lemma parsePortoVersion_no_match:
  "\<not> (\<exists>pre c post. line = pre @ c # CHR ''.'' # post \<and> isDigit c) \<Longrightarrow>
     parsePortoVersion line = Inl (ErrorfQ ''unknown version: %q'' line)"
  using leftmostMatch_None_iff [of line]
  by (simp add: parsePortoVersion_def FindStringSubmatch_def)

text \<open>
  What the parser returns in general: the digit in front of the first dot that follows a
  digit, the dot, and the non-whitespace characters after it.
\<close>

lemma isDigit_not_dot: "isDigit c \<Longrightarrow> c \<noteq> CHR ''.''"
  by (auto simp add: isDigit_def)

lemma leftmostMatch_first_pair:
  assumes "isDigit c" and "leftmostMatch pre = None"
  shows "leftmostMatch (pre @ c # CHR ''.'' # rest) =
           Some (c # CHR ''.'' # takeWhile (\<lambda>x. \<not> isSpace x) rest)"
  using assms(2)
proof (induction pre)
  case Nil
  from assms(1) show ?case by simp
next
  case (Cons a t)
  show ?case
  proof (cases t)
    case Nil
    with assms(1) show ?thesis by (simp add: isDigit_not_dot)
  next
    case (Cons b t')
    with Cons.prems have no: "\<not> (isDigit a \<and> b = CHR ''.'')"
      by (auto split: if_splits)
    with Cons.prems Cons have "leftmostMatch t = None" by simp
    then have "leftmostMatch (t @ c # CHR ''.'' # rest) =
        Some (c # CHR ''.'' # takeWhile (\<lambda>x. \<not> isSpace x) rest)"
      by (rule Cons.IH)
    moreover from no Cons have "leftmostMatch ((a # t) @ c # CHR ''.'' # rest) =
        leftmostMatch (t @ c # CHR ''.'' # rest)"
      by auto
    ultimately show ?thesis by (simp only:)
  qed
qed

lemma parsePortoVersion_first_pair:
  assumes "isDigit c" and "leftmostMatch pre = None"
  shows "parsePortoVersion (pre @ c # CHR ''.'' # rest) =
           Inr (c # CHR ''.'' # takeWhile (\<lambda>x. \<not> isSpace x) rest)"
  using leftmostMatch_first_pair [OF assms]
  by (simp add: parsePortoVersion_def FindStringSubmatch_def)

text \<open>The two lines quoted in the source, with a one-digit leading number.\<close>

lemma parsePortoVersion_quoted_lines:
  "parsePortoVersion ''version: 5.3.30-alpha.7  /usr/sbin/portod'' = Inr ''5.3.30-alpha.7''"
  "parsePortoVersion ''running: 5.3.30-alpha.7  /usr/sbin/portod'' = Inr ''5.3.30-alpha.7''"
  by (simp_all add: parsePortoVersion_def FindStringSubmatch_def isDigit_def isSpace_def)

text \<open>
  C2. For a line that holds a token of one or more digits, a dot and non-whitespace
  characters, the parser is to return that whole token. On the line
  \<open>version: 12.3.4  /usr/sbin/portod\<close> the token is \<open>12.3.4\<close>, and the parser returns
  \<open>2.3.4\<close>: the pattern asks for a single digit before the dot, so the match starts at
  the last digit of the leading number.
\<close>

theorem parsePortoVersion_two_digit_major:
  "parsePortoVersion ''version: 12.3.4  /usr/sbin/portod'' = Inr ''2.3.4'' \<and>
   specVersionToken ''version: 12.3.4  /usr/sbin/portod'' = Some ''12.3.4''"
  by (simp add: parsePortoVersion_def FindStringSubmatch_def isDigit_def isSpace_def)

subsection \<open>Helper facts\<close>

lemma stringsContains_iff:
  "stringsContains s substr \<longleftrightarrow> (\<exists>before after. s = before @ substr @ after)"
  by (simp add: stringsContains_def sublist_def)

lemma defaultRepoTag_idem: "defaultRepoTag (defaultRepoTag x) = defaultRepoTag x"
proof (cases "stringsContains x ''.io/''")
  case True
  then show ?thesis by (simp add: defaultRepoTag_def)
next
  case False
  have "''docker.io/'' @ x = ''docker'' @ ''.io/'' @ x" by simp
  then have "stringsContains (''docker.io/'' @ x) ''.io/''"
    unfolding stringsContains_iff by blast
  with False show ?thesis by (simp add: defaultRepoTag_def)
qed

lemmas host_defs = quietHost_def printingHost_def brokenRunnerHost_def garbledHost_def
  inventoryHost_def catalogHost_def refusingPullHost_def oldKernelHost_def startTrace_def
  porto0_def config0_def inventory12_def

lemmas enable_defs = Enable_def enableKernelGates_def enableAfterGates_def enableHostSetup_def
  enablePauseImage_def PullImage_def initRestart_def checkKernel_def generatePortoConfig_def
  SocketPath_def invoke_def klogf_def

lemmas preload_defs = Preload_def portoImagesPreloaded_def runCmd_def invoke_def klogf_def
  PullImage_def Restart_def initRestart_def defaultRepoTag_def stringsContains_def sublist_code
  crictlImagesCmd_def

subsection \<open>Image operations\<close>

text \<open>
  C9. When the listing command succeeds, \<open>ImageExists\<close> answers true exactly when the
  text of the listing contains the name and, for a non-empty checksum, the checksum as
  well; with an empty checksum the answer depends on the name alone. The text of the
  listing is what \<open>Output()\<close> gives for the command.
\<close>

theorem ImageExists_listing:
  assumes "RunCmd h (calls s) [''sudo'', ''portoctl'', ''docker-images''] = Inr rr"
  shows "fst (ImageExists h r name sha s) =
           (stringsContains (Output rr) name \<and> (sha \<noteq> [] \<longrightarrow> stringsContains (Output rr) sha)) \<and>
         fst (ImageExists h r name [] s) = stringsContains (Output rr) name"
  using assms by (auto simp add: ImageExists_def runCmd_def invoke_def klogf_def Let_def)

text \<open>
  A listing that names the pause image with its checksum: the image is found with the
  right checksum and with none, and not found with another checksum.
\<close>

theorem ImageExists_listing_witness:
  "RunCmd (printingHost ''registry.k8s.io/pause 3.7 sha256:abc'') (calls startTrace)
     [''sudo'', ''portoctl'', ''docker-images''] =
     Inr \<lparr>Stdout = ''registry.k8s.io/pause 3.7 sha256:abc'',
          Output = ''registry.k8s.io/pause 3.7 sha256:abc''\<rparr> \<and>
   fst (ImageExists (printingHost ''registry.k8s.io/pause 3.7 sha256:abc'') porto0
          ''pause'' ''sha256:abc'' startTrace) \<and>
   \<not> fst (ImageExists (printingHost ''registry.k8s.io/pause 3.7 sha256:abc'') porto0
          ''pause'' ''sha256:abd'' startTrace) \<and>
   fst (ImageExists (printingHost ''registry.k8s.io/pause 3.7 sha256:abc'') porto0
          ''pause'' [] startTrace)"
  using ImageExists_listing [of "printingHost ''registry.k8s.io/pause 3.7 sha256:abc''"
      startTrace "\<lparr>Stdout = ''registry.k8s.io/pause 3.7 sha256:abc'',
          Output = ''registry.k8s.io/pause 3.7 sha256:abc''\<rparr>" porto0 "''pause''" "''sha256:abc''"]
    ImageExists_listing [of "printingHost ''registry.k8s.io/pause 3.7 sha256:abc''"
      startTrace "\<lparr>Stdout = ''registry.k8s.io/pause 3.7 sha256:abc'',
          Output = ''registry.k8s.io/pause 3.7 sha256:abc''\<rparr>" porto0 "''pause''" "''sha256:abd''"]
  by (simp add: host_defs stringsContains_def sublist_code)

text \<open>
  C10. When the listing command itself fails, \<open>ImageExists\<close> answers false whatever the
  name and the checksum are. Its result is a truth value only: the failure shows nowhere
  but in it, and the operation leaves behind the one call and its one log line.
\<close>

theorem ImageExists_run_failure:
  assumes "RunCmd h (calls s) [''sudo'', ''portoctl'', ''docker-images''] = Inl err"
  shows "ImageExists h r name sha s =
           (False,
            s\<lparr>calls := calls s @ [EvRunCmd [''sudo'', ''portoctl'', ''docker-images'']],
              klog := klog s @ [(Info, ''Checking existence of image with name %q and sha %q'',
                                 [ArgString name, ArgString sha])]\<rparr>)"
  using assms by (auto simp add: ImageExists_def runCmd_def invoke_def klogf_def Let_def)

text \<open>
  On a host whose runner fails every command.
\<close>

theorem ImageExists_run_failure_witness:
  "RunCmd brokenRunnerHost (calls startTrace) [''sudo'', ''portoctl'', ''docker-images''] =
     Inl (External ''exit status 1'') \<and>
   fst (ImageExists brokenRunnerHost porto0 ''pause'' [] startTrace) = False \<and>
   calls (snd (ImageExists brokenRunnerHost porto0 ''pause'' [] startTrace)) =
     [EvRunCmd [''sudo'', ''portoctl'', ''docker-images'']]"
  using ImageExists_run_failure [of brokenRunnerHost startTrace "External ''exit status 1''"
      porto0 "''pause''" "[]"]
  by (simp add: host_defs)

text \<open>
  C5. \<open>LoadImage\<close>, \<open>SaveImage\<close>, \<open>TagImage\<close>, \<open>BuildImage\<close> and \<open>PushImage\<close> return
  the error \<open>not implemented\<close> for every argument, on every host, and leave the trace as
  it was: no call on the host, no log line.
\<close>

theorem unsupported_verbs:
  "LoadImage h r path s = (Some (ErrorsNew ''not implemented''), s) \<and>
   SaveImage h r name path s = (Some (ErrorsNew ''not implemented''), s) \<and>
   TagImage h r source target s = (Some (ErrorsNew ''not implemented''), s) \<and>
   BuildImage h r src file tag push env opts s = (Some (ErrorsNew ''not implemented''), s) \<and>
   PushImage h r name s = (Some (ErrorsNew ''not implemented''), s)"
  by (simp add: LoadImage_def SaveImage_def TagImage_def BuildImage_def PushImage_def)

subsection \<open>Enable\<close>

lemma enableAfterGates_no_kernel_check:
  "filter isKernelCheck (calls (snd (enableAfterGates h r d cg u s))) =
   filter isKernelCheck (calls s)"
  by (simp add: enableAfterGates_def enableHostSetup_def enablePauseImage_def PullImage_def
      initRestart_def generatePortoConfig_def invoke_def klogf_def Let_def
      split: prod.splits option.splits)

lemma enableHostSetup_first_call:
  "\<exists>more. calls (snd (enableHostSetup h r disOthers cgroupDriver inUserNamespace s)) =
     calls s @
     (if disOthers then EvDisableOthers else EvPopulateCRIConfig (SocketPath r)) # more"
  by (simp add: enableHostSetup_def initRestart_def generatePortoConfig_def invoke_def
      klogf_def Let_def split: prod.splits option.splits)

lemma enableAfterGates_first_call:
  "\<exists>more. calls (snd (enableAfterGates h r disOthers cgroupDriver inUserNamespace s)) =
     calls s @
     (if disOthers then EvDisableOthers else EvPopulateCRIConfig (SocketPath r)) # more"
proof -
  obtain more where m:
    "calls (snd (enableHostSetup h r disOthers cgroupDriver inUserNamespace s)) =
       calls s @
       (if disOthers then EvDisableOthers else EvPopulateCRIConfig (SocketPath r)) # more"
    using enableHostSetup_first_call by blast
  show ?thesis
  proof (cases "enableHostSetup h r disOthers cgroupDriver inUserNamespace s")
    case (Pair res s')
    show ?thesis
    proof (cases res)
      case None
      with Pair m have "calls (snd (enableAfterGates h r disOthers cgroupDriver inUserNamespace s)) =
          calls s @
          (if disOthers then EvDisableOthers else EvPopulateCRIConfig (SocketPath r)) #
          (more @ [EvPullCRIImage ''registry.k8s.io/pause:3.7''])"
        by (simp add: enableAfterGates_def enablePauseImage_def PullImage_def invoke_def
            split: option.splits)
      then show ?thesis by blast
    next
      case (Some e)
      with Pair m have "calls (snd (enableAfterGates h r disOthers cgroupDriver inUserNamespace s)) =
          calls s @
          (if disOthers then EvDisableOthers else EvPopulateCRIConfig (SocketPath r)) # more"
        by (simp add: enableAfterGates_def)
      then show ?thesis by blast
    qed
  qed
qed

lemma enableKernelGates_hard_ok:
  assumes "CheckKernelCompatibility h (calls s) 5 11 = None"
  shows "fst (enableKernelGates h True s) = None"
    and "calls (snd (enableKernelGates h True s)) =
           calls s @ [EvCheckKernelCompatibility 5 11, EvCheckKernelCompatibility 5 13]"
    and "klog (snd (enableKernelGates h True s)) =
           klog s @
           (case CheckKernelCompatibility h (calls s @ [EvCheckKernelCompatibility 5 11]) 5 13 of
              None \<Rightarrow> []
            | Some err \<Rightarrow>
                [(Warning, ''kernel >= 5.13 is recommended for rootless mode %v'',
                  [ArgError err])])"
  using assms
  by (simp_all add: enableKernelGates_def checkKernel_def invoke_def klogf_def
      split: option.splits)

text \<open>
  C4. In rootless mode the check for kernel 5.11 is the first call \<open>Enable\<close> makes; when it
  fails, \<open>Enable\<close> returns an error that names the requirement and wraps the cause, and
  has made no other call. When it passes, the check for kernel 5.13 comes second; whether
  that one passes or fails, \<open>Enable\<close> goes on with the rest of its steps and makes its next
  call on the host, a failure adding only a warning to the log. Outside rootless mode
  \<open>Enable\<close> is the rest of its steps and makes no kernel check at all.
\<close>

theorem Enable_kernel_gates:
  "(CheckKernelCompatibility h (calls s) 5 11 = Some err \<longrightarrow>
      Enable h r disOthers cgroupDriver True s =
        (Some (ErrorfW ''kernel >= 5.11 is required for rootless mode: %w'' err),
         s\<lparr>calls := calls s @ [EvCheckKernelCompatibility 5 11]\<rparr>)) \<and>
   (CheckKernelCompatibility h (calls s) 5 11 = None \<longrightarrow>
      Enable h r disOthers cgroupDriver True s =
        enableAfterGates h r disOthers cgroupDriver True (snd (enableKernelGates h True s)) \<and>
      calls (snd (enableKernelGates h True s)) =
        calls s @ [EvCheckKernelCompatibility 5 11, EvCheckKernelCompatibility 5 13] \<and>
      klog (snd (enableKernelGates h True s)) =
        klog s @
        (case CheckKernelCompatibility h (calls s @ [EvCheckKernelCompatibility 5 11]) 5 13 of
           None \<Rightarrow> []
         | Some err' \<Rightarrow>
             [(Warning, ''kernel >= 5.13 is recommended for rootless mode %v'',
               [ArgError err'])]) \<and>
      (\<exists>more. calls (snd (Enable h r disOthers cgroupDriver True s)) =
         calls s @
         [EvCheckKernelCompatibility 5 11, EvCheckKernelCompatibility 5 13,
          if disOthers then EvDisableOthers else EvPopulateCRIConfig (SocketPath r)] @ more) \<and>
      filter isKernelCheck (calls (snd (Enable h r disOthers cgroupDriver True s))) =
        filter isKernelCheck (calls s) @
          [EvCheckKernelCompatibility 5 11, EvCheckKernelCompatibility 5 13]) \<and>
   Enable h r disOthers cgroupDriver False s =
     enableAfterGates h r disOthers cgroupDriver False s \<and>
   filter isKernelCheck (calls (snd (Enable h r disOthers cgroupDriver False s))) =
     filter isKernelCheck (calls s)"
proof (intro conjI impI)
  assume "CheckKernelCompatibility h (calls s) 5 11 = Some err"
  then show "Enable h r disOthers cgroupDriver True s =
        (Some (ErrorfW ''kernel >= 5.11 is required for rootless mode: %w'' err),
         s\<lparr>calls := calls s @ [EvCheckKernelCompatibility 5 11]\<rparr>)"
    by (simp add: Enable_def enableKernelGates_def checkKernel_def invoke_def)
next
  assume ok: "CheckKernelCompatibility h (calls s) 5 11 = None"
  note gates = enableKernelGates_hard_ok [OF ok]
  show eq: "Enable h r disOthers cgroupDriver True s =
        enableAfterGates h r disOthers cgroupDriver True (snd (enableKernelGates h True s))"
    using gates(1) by (cases "enableKernelGates h True s") (simp add: Enable_def)
  show "calls (snd (enableKernelGates h True s)) =
        calls s @ [EvCheckKernelCompatibility 5 11, EvCheckKernelCompatibility 5 13]"
    by (rule gates(2))
  show "klog (snd (enableKernelGates h True s)) =
        klog s @
        (case CheckKernelCompatibility h (calls s @ [EvCheckKernelCompatibility 5 11]) 5 13 of
           None \<Rightarrow> []
         | Some err' \<Rightarrow>
             [(Warning, ''kernel >= 5.13 is recommended for rootless mode %v'',
               [ArgError err'])])"
    by (rule gates(3))
  obtain more where
    "calls (snd (enableAfterGates h r disOthers cgroupDriver True
                   (snd (enableKernelGates h True s)))) =
       calls (snd (enableKernelGates h True s)) @
       (if disOthers then EvDisableOthers else EvPopulateCRIConfig (SocketPath r)) # more"
    using enableAfterGates_first_call by blast
  then have "calls (snd (Enable h r disOthers cgroupDriver True s)) =
         calls s @
         [EvCheckKernelCompatibility 5 11, EvCheckKernelCompatibility 5 13,
          if disOthers then EvDisableOthers else EvPopulateCRIConfig (SocketPath r)] @ more"
    by (simp add: eq gates(2))
  then show "\<exists>more. calls (snd (Enable h r disOthers cgroupDriver True s)) =
         calls s @
         [EvCheckKernelCompatibility 5 11, EvCheckKernelCompatibility 5 13,
          if disOthers then EvDisableOthers else EvPopulateCRIConfig (SocketPath r)] @ more"
    by blast
  show "filter isKernelCheck (calls (snd (Enable h r disOthers cgroupDriver True s))) =
        filter isKernelCheck (calls s) @
          [EvCheckKernelCompatibility 5 11, EvCheckKernelCompatibility 5 13]"
    by (simp add: eq enableAfterGates_no_kernel_check gates(2))
next
  show eq: "Enable h r disOthers cgroupDriver False s =
     enableAfterGates h r disOthers cgroupDriver False s"
    by (simp add: Enable_def enableKernelGates_def)
  show "filter isKernelCheck (calls (snd (Enable h r disOthers cgroupDriver False s))) =
     filter isKernelCheck (calls s)"
    by (simp add: eq enableAfterGates_no_kernel_check)
qed

text \<open>
  A host with kernel 5.10 stops at the first check; a host with kernel 5.12 passes it,
  fails the second, and is enabled with a warning; without rootless mode the host with
  kernel 5.10 is never asked.
\<close>

theorem Enable_kernel_gates_witness:
  "Enable (oldKernelHost 10) porto0 False ''systemd'' True startTrace =
     (Some (ErrorfW ''kernel >= 5.11 is required for rootless mode: %w''
              (External ''kernel too old'')),
      \<lparr>calls = [EvCheckKernelCompatibility 5 11], klog = []\<rparr>) \<and>
   Enable (oldKernelHost 12) porto0 False ''systemd'' True startTrace =
     (None,
      \<lparr>calls = [EvCheckKernelCompatibility 5 11, EvCheckKernelCompatibility 5 13,
                EvPopulateCRIConfig ''/run/portoshim.sock'', EvEnableIPForwarding,
                EvInitRestart ''porto'', EvPullCRIImage ''registry.k8s.io/pause:3.7''],
        klog = [(Warning, ''kernel >= 5.13 is recommended for rootless mode %v'',
                 [ArgError (External ''kernel too old'')])]\<rparr>) \<and>
   filter isKernelCheck
     (calls (snd (Enable (oldKernelHost 10) porto0 True ''systemd'' False startTrace))) = []"
  using Enable_kernel_gates [of "oldKernelHost 10" startTrace "External ''kernel too old''"
      porto0 False "''systemd''"]
    Enable_kernel_gates [of "oldKernelHost 12" startTrace "External ''kernel too old''"
      porto0 False "''systemd''"]
    Enable_kernel_gates [of "oldKernelHost 10" startTrace "External ''kernel too old''"
      porto0 True "''systemd''"]
  by (simp add: host_defs enable_defs)

text \<open>
  C8. Whenever the kernel checks and the host setup of \<open>Enable\<close> succeed, \<open>Enable\<close> pulls
  the image \<open>registry.k8s.io/pause:3.7\<close> as its last call, without asking whether the image
  is there, and returns success when the pull succeeds and the pull's error wrapped as
  \<open>pulling pause image\<close> when it fails.
\<close>

theorem Enable_pause_image:
  assumes "enableKernelGates h inUserNamespace s = (None, s1)"
      and "enableHostSetup h r disOthers cgroupDriver inUserNamespace s1 = (None, s2)"
  shows "Enable h r disOthers cgroupDriver inUserNamespace s =
           ((case pullCRIImage h (calls s2) ''registry.k8s.io/pause:3.7'' of
               None \<Rightarrow> None
             | Some err \<Rightarrow> Some (ErrorsWrap err ''pulling pause image'')),
            s2\<lparr>calls := calls s2 @ [EvPullCRIImage ''registry.k8s.io/pause:3.7'']\<rparr>)"
  using assms
  by (simp add: Enable_def enableAfterGates_def enablePauseImage_def PullImage_def invoke_def
      split: option.splits)

text \<open>
  On the host where everything succeeds, and on one that refuses to pull the pause
  image.
\<close>

theorem Enable_pause_image_witness:
  "enableKernelGates quietHost False startTrace = (None, startTrace) \<and>
   enableHostSetup quietHost porto0 False ''systemd'' False startTrace =
     (None, \<lparr>calls = [EvPopulateCRIConfig ''/run/portoshim.sock'', EvEnableIPForwarding,
                       EvInitRestart ''porto''], klog = []\<rparr>) \<and>
   Enable quietHost porto0 False ''systemd'' False startTrace =
     (None, \<lparr>calls = [EvPopulateCRIConfig ''/run/portoshim.sock'', EvEnableIPForwarding,
                       EvInitRestart ''porto'', EvPullCRIImage ''registry.k8s.io/pause:3.7''],
             klog = []\<rparr>) \<and>
   Enable (refusingPullHost ''registry.k8s.io/pause:3.7'' quietHost) porto0 False ''systemd''
       False startTrace =
     (Some (ErrorsWrap (External ''pull failed'') ''pulling pause image''),
      \<lparr>calls = [EvPopulateCRIConfig ''/run/portoshim.sock'', EvEnableIPForwarding,
                EvInitRestart ''porto'', EvPullCRIImage ''registry.k8s.io/pause:3.7''],
        klog = []\<rparr>)"
  using Enable_pause_image [of quietHost False startTrace startTrace porto0 False "''systemd''"
      "\<lparr>calls = [EvPopulateCRIConfig ''/run/portoshim.sock'', EvEnableIPForwarding,
                       EvInitRestart ''porto''], klog = []\<rparr>"]
    Enable_pause_image [of "refusingPullHost ''registry.k8s.io/pause:3.7'' quietHost" False
      startTrace startTrace porto0 False "''systemd''"
      "\<lparr>calls = [EvPopulateCRIConfig ''/run/portoshim.sock'', EvEnableIPForwarding,
                       EvInitRestart ''porto''], klog = []\<rparr>"]
  by (simp add: host_defs enableKernelGates_def enableHostSetup_def initRestart_def
      generatePortoConfig_def SocketPath_def invoke_def klogf_def)

subsection \<open>The inventory matcher\<close>

text \<open>
  What the loops compute for any normalization: the requirement is normalized once more
  before each comparison, so the tag at position \<open>k\<close> of the inventory, all entries taken
  in order, is compared with the requirement normalized \<open>k + 1\<close> times.
\<close>

lemma funpow_Suc_add: "(f ^^ Suc (n + k)) x = (f ^^ Suc k) ((f ^^ n) x)"
proof -
  have "Suc (n + k) = Suc k + n" by simp
  then show ?thesis by (simp only: funpow_add o_apply)
qed

lemma ex_less_Suc_shift: "(\<exists>k<Suc n. P k) \<longleftrightarrow> P 0 \<or> (\<exists>k<n. P (Suc k))"
  by (metis less_Suc_eq_0_disj)

lemma tagsLoop_iterated:
  "fst (tagsLoop norm i rts) = (\<exists>k<length rts. (norm ^^ Suc k) i = rts ! k)"
  "\<not> fst (tagsLoop norm i rts) \<Longrightarrow> snd (tagsLoop norm i rts) = (norm ^^ length rts) i"
proof (induction rts arbitrary: i)
  case Nil
  { case 1 show ?case by simp }
  { case 2 show ?case by simp }
next
  case (Cons rt rts)
  { case 1
    show ?case
    proof (cases "norm i = rt")
      case True
      then show ?thesis by auto
    next
      case False
      then have "fst (tagsLoop norm i (rt # rts)) = fst (tagsLoop norm (norm i) rts)"
        by simp
      also have "\<dots> = (\<exists>k<length rts. (norm ^^ Suc k) (norm i) = rts ! k)"
        by (rule Cons.IH(1))
      also have "\<dots> = (\<exists>k<length rts. (norm ^^ Suc (Suc k)) i = (rt # rts) ! Suc k)"
        by (simp add: funpow_swap1)
      also have "\<dots> = (\<exists>k<length (rt # rts). (norm ^^ Suc k) i = (rt # rts) ! k)"
        using False by (simp add: ex_less_Suc_shift)
      finally show ?thesis .
    qed }
  { case 2
    then have ne: "norm i \<noteq> rt" by (auto simp: Let_def split: if_splits)
    with 2 have "\<not> fst (tagsLoop norm (norm i) rts)" by simp
    then have "snd (tagsLoop norm (norm i) rts) = (norm ^^ length rts) (norm i)"
      by (rule Cons.IH(2))
    with ne show ?case by (simp add: funpow_swap1) }
qed

lemma entriesLoop_iterated_both:
  "fst (entriesLoop norm i inventory) =
     (\<exists>k<length (concat (map RepoTags inventory)).
         (norm ^^ Suc k) i = concat (map RepoTags inventory) ! k) \<and>
   (\<not> fst (entriesLoop norm i inventory) \<longrightarrow>
     snd (entriesLoop norm i inventory) = (norm ^^ length (concat (map RepoTags inventory))) i)"
proof (induction inventory arbitrary: i)
  case Nil
  show ?case by simp
next
  case (Cons ji jis)
  let ?ts = "RepoTags ji"
  let ?rest = "concat (map RepoTags jis)"
  let ?i' = "(norm ^^ length ?ts) i"
  define L where "L \<longleftrightarrow> (\<exists>k<length (?ts @ ?rest). (norm ^^ Suc k) i = (?ts @ ?rest) ! k)"
  define A where "A \<longleftrightarrow> (\<exists>k<length ?ts. (norm ^^ Suc k) i = ?ts ! k)"
  define B where "B \<longleftrightarrow> (\<exists>k<length ?rest. (norm ^^ Suc k) ?i' = ?rest ! k)"
  have cc: "concat (map RepoTags (ji # jis)) = ?ts @ ?rest" by simp
  have "(\<exists>k<length (?ts @ ?rest). (norm ^^ Suc k) i = (?ts @ ?rest) ! k) \<longleftrightarrow>
        (\<exists>k<length ?ts. (norm ^^ Suc k) i = ?ts ! k) \<or>
        (\<exists>k<length ?rest. (norm ^^ Suc k) ?i' = ?rest ! k)"
    (is "?L \<longleftrightarrow> ?A \<or> ?B")
  proof
    assume ?L
    then obtain k where k: "k < length (?ts @ ?rest)" "(norm ^^ Suc k) i = (?ts @ ?rest) ! k"
      by blast
    show "?A \<or> ?B"
    proof (cases "k < length ?ts")
      case True
      with k have "k < length ?ts \<and> (norm ^^ Suc k) i = ?ts ! k"
        by (simp add: nth_append)
      then show ?thesis by blast
    next
      case False
      then have kk: "length ?ts + (k - length ?ts) = k" by simp
      have "(norm ^^ Suc (length ?ts + (k - length ?ts))) i =
            (norm ^^ Suc (k - length ?ts)) ?i'"
        by (rule funpow_Suc_add)
      then have "(norm ^^ Suc k) i = (norm ^^ Suc (k - length ?ts)) ?i'"
        by (simp only: kk)
      moreover from k False have "k - length ?ts < length ?rest"
        by simp
      moreover from k False have "(?ts @ ?rest) ! k = ?rest ! (k - length ?ts)"
        by (simp add: nth_append)
      ultimately have "k - length ?ts < length ?rest \<and>
          (norm ^^ Suc (k - length ?ts)) ?i' = ?rest ! (k - length ?ts)"
        using k(2) by simp
      then show ?thesis by blast
    qed
  next
    assume "?A \<or> ?B"
    then show ?L
    proof
      assume ?A
      then obtain k where k: "k < length ?ts" "(norm ^^ Suc k) i = ?ts ! k" by blast
      then have "k < length (?ts @ ?rest) \<and> (norm ^^ Suc k) i = (?ts @ ?rest) ! k"
        by (simp add: nth_append)
      then show ?L by blast
    next
      assume ?B
      then obtain k where k: "k < length ?rest" "(norm ^^ Suc k) ?i' = ?rest ! k" by blast
      have "(norm ^^ Suc (length ?ts + k)) i = (norm ^^ Suc k) ?i'"
        by (rule funpow_Suc_add)
      with k have "length ?ts + k < length (?ts @ ?rest) \<and>
          (norm ^^ Suc (length ?ts + k)) i = (?ts @ ?rest) ! (length ?ts + k)"
        by (simp add: nth_append)
      then show ?L by blast
    qed
  qed
  then have split: "L \<longleftrightarrow> A \<or> B"
    by (simp only: L_def A_def B_def)
  have tl: "fst (tagsLoop norm i ?ts) = A"
    unfolding A_def by (rule tagsLoop_iterated(1))
  have ih: "fst (entriesLoop norm ?i' jis) = B"
    unfolding B_def using Cons.IH [of ?i'] by (rule conjunct1)
  have one: "fst (entriesLoop norm i (ji # jis)) = L"
  proof (cases "fst (tagsLoop norm i ?ts)")
    case True
    then have "fst (entriesLoop norm i (ji # jis))"
      by (cases "tagsLoop norm i ?ts") simp
    with True tl split show ?thesis by simp
  next
    case False
    then have "snd (tagsLoop norm i ?ts) = ?i'" by (rule tagsLoop_iterated(2))
    with False have "entriesLoop norm i (ji # jis) = entriesLoop norm ?i' jis"
      by (cases "tagsLoop norm i ?ts") simp
    then have "fst (entriesLoop norm i (ji # jis)) = B"
      by (simp only: ih)
    with False tl split show ?thesis by simp
  qed
  have two: "snd (entriesLoop norm i (ji # jis)) = (norm ^^ length (?ts @ ?rest)) i"
    if nf: "\<not> fst (entriesLoop norm i (ji # jis))"
  proof -
    from nf have nt: "\<not> fst (tagsLoop norm i ?ts)"
      by (cases "tagsLoop norm i ?ts") (auto split: bool.splits)
    then have "snd (tagsLoop norm i ?ts) = ?i'" by (rule tagsLoop_iterated(2))
    from nt this have eq: "entriesLoop norm i (ji # jis) = entriesLoop norm ?i' jis"
      by (cases "tagsLoop norm i ?ts") simp
    from nf have "\<not> fst (entriesLoop norm ?i' jis)" unfolding eq .
    with Cons.IH [of ?i'] have "snd (entriesLoop norm ?i' jis) = (norm ^^ length ?rest) ?i'"
      by blast
    moreover have "length (?ts @ ?rest) = length ?rest + length ?ts"
      by simp
    then have "(norm ^^ length (?ts @ ?rest)) i = (norm ^^ length ?rest) ?i'"
      by (simp only: funpow_add o_apply)
    ultimately show ?thesis by (simp only: eq)
  qed
  from one two show ?case unfolding L_def cc by blast
qed

text \<open>
  For an idempotent normalization the repeated application is a single one.
\<close>

lemma tagsLoop_idem:
  assumes "\<forall>x. norm (norm x) = norm x"
  shows "tagsLoop norm i rts = (norm i \<in> set rts, if rts = [] then i else norm i)"
proof (induction rts arbitrary: i)
  case Nil
  show ?case by simp
next
  case (Cons rt rts)
  show ?case
  proof (cases "norm i = rt")
    case True
    then show ?thesis by simp
  next
    case False
    have "tagsLoop norm i (rt # rts) = tagsLoop norm (norm i) rts"
      using False by simp
    also have "\<dots> = (norm (norm i) \<in> set rts, if rts = [] then norm i else norm (norm i))"
      by (rule Cons.IH)
    also have "\<dots> = (norm i \<in> set (rt # rts), norm i)"
      using False assms by auto
    finally show ?thesis by simp
  qed
qed

lemma entriesLoop_idem:
  assumes "\<forall>x. norm (norm x) = norm x"
  shows "entriesLoop norm i inventory =
           (\<exists>ji\<in>set inventory. norm i \<in> set (RepoTags ji),
            if \<forall>ji\<in>set inventory. RepoTags ji = [] then i else norm i)"
proof (induction inventory arbitrary: i)
  case Nil
  show ?case by simp
next
  case (Cons ji jis)
  let ?i1 = "if RepoTags ji = [] then i else norm i"
  have tl: "tagsLoop norm i (RepoTags ji) = (norm i \<in> set (RepoTags ji), ?i1)"
    by (rule tagsLoop_idem [OF assms])
  have n1: "norm ?i1 = norm i"
    using assms by simp
  show ?case
  proof (cases "norm i \<in> set (RepoTags ji)")
    case True
    then have "RepoTags ji \<noteq> []" by auto
    with True tl show ?thesis by auto
  next
    case False
    have "entriesLoop norm i (ji # jis) = entriesLoop norm ?i1 jis"
      using False tl by simp
    also have "\<dots> = (\<exists>ji\<in>set jis. norm ?i1 \<in> set (RepoTags ji),
            if \<forall>ji\<in>set jis. RepoTags ji = [] then ?i1 else norm ?i1)"
      by (rule Cons.IH)
    finally show ?thesis
      using False n1 by auto
  qed
qed

lemma imagesLoop_idem:
  assumes "\<forall>x. addRepoTagToImageName h (addRepoTagToImageName h x) = addRepoTagToImageName h x"
  shows "fst (imagesLoop h images inventory s) =
           (\<forall>i\<in>set images. \<exists>ji\<in>set inventory. addRepoTagToImageName h i \<in> set (RepoTags ji))"
proof (induction images)
  case Nil
  show ?case by simp
next
  case (Cons i images)
  show ?case
  proof (cases "\<exists>ji\<in>set inventory. addRepoTagToImageName h i \<in> set (RepoTags ji)")
    case True
    then show ?thesis using Cons.IH by (simp add: entriesLoop_idem [OF assms])
  next
    case False
    then show ?thesis by (simp add: entriesLoop_idem [OF assms])
  qed
qed

lemma imagesLoop_first_unmatched:
  assumes idem: "\<forall>x. addRepoTagToImageName h (addRepoTagToImageName h x) = addRepoTagToImageName h x"
      and pre: "\<forall>p\<in>set pre. \<exists>ji\<in>set inventory. addRepoTagToImageName h p \<in> set (RepoTags ji)"
      and miss: "\<not> (\<exists>ji\<in>set inventory. addRepoTagToImageName h i \<in> set (RepoTags ji))"
  shows "imagesLoop h (pre @ i # post) inventory s =
           (False,
            klogf Info
              (''couldn'' @ [CHR 0x27] @
               ''t find preloaded image for %q. assuming images are not preloaded.'')
              [ArgString (if \<forall>ji\<in>set inventory. RepoTags ji = [] then i
                          else addRepoTagToImageName h i)] s)"
  using pre
proof (induction pre)
  case Nil
  show ?case using miss by (simp add: entriesLoop_idem [OF idem])
next
  case (Cons p pre)
  then have "\<exists>ji\<in>set inventory. addRepoTagToImageName h p \<in> set (RepoTags ji)"
    by simp
  moreover from Cons have "imagesLoop h (pre @ i # post) inventory s =
           (False,
            klogf Info
              (''couldn'' @ [CHR 0x27] @
               ''t find preloaded image for %q. assuming images are not preloaded.'')
              [ArgString (if \<forall>ji\<in>set inventory. RepoTags ji = [] then i
                          else addRepoTagToImageName h i)] s)"
    by simp
  ultimately show ?case by (simp add: entriesLoop_idem [OF idem])
qed

lemma calls_imagesLoop: "calls (snd (imagesLoop h images inventory s)) = calls s"
  by (induction images) (simp_all add: klogf_def split: prod.splits bool.splits)

lemma calls_portoImagesPreloaded:
  "calls (snd (portoImagesPreloaded h images s)) = calls s @ [EvRunCmd crictlImagesCmd]"
  by (simp add: portoImagesPreloaded_def runCmd_def invoke_def klogf_def calls_imagesLoop
      split: sum.splits)

text \<open>
  C6. When the inventory command fails, or its output does not parse into the expected
  shape, \<open>portoImagesPreloaded\<close> answers false for every list of required images.
\<close>

theorem portoImagesPreloaded_conservative:
  assumes "(\<exists>err. RunCmd h (calls s) crictlImagesCmd = Inl err) \<or>
           (\<exists>rr err. RunCmd h (calls s) crictlImagesCmd = Inr rr \<and>
                      jsonUnmarshal h (Stdout rr) = Inl err)"
  shows "fst (portoImagesPreloaded h images s) = False"
  using assms by (auto simp add: portoImagesPreloaded_def runCmd_def invoke_def)

text \<open>
  On a host whose runner fails, and on a host whose inventory output does not parse.
\<close>

theorem portoImagesPreloaded_conservative_witness:
  "RunCmd brokenRunnerHost (calls startTrace) crictlImagesCmd = Inl (External ''exit status 1'') \<and>
   fst (portoImagesPreloaded brokenRunnerHost [] startTrace) = False \<and>
   RunCmd garbledHost (calls startTrace) crictlImagesCmd = Inr \<lparr>Stdout = [], Output = []\<rparr> \<and>
   jsonUnmarshal garbledHost [] = Inl (External ''unexpected end of JSON input'') \<and>
   fst (portoImagesPreloaded garbledHost [''img:v1''] startTrace) = False"
  using portoImagesPreloaded_conservative [of brokenRunnerHost startTrace "[]"]
    portoImagesPreloaded_conservative [of garbledHost startTrace "[''img:v1'']"]
  by (simp add: host_defs)

text \<open>
  C7. With an inventory that was retrieved and parsed, whatever its entries and tags,
  \<open>portoImagesPreloaded\<close> answers true for the empty list of required images.
\<close>

theorem portoImagesPreloaded_no_requirement:
  assumes "RunCmd h (calls s) crictlImagesCmd = Inr rr"
      and "jsonUnmarshal h (Stdout rr) = Inr jsonImages"
  shows "fst (portoImagesPreloaded h [] s) = True"
  using assms by (simp add: portoImagesPreloaded_def runCmd_def invoke_def)

text \<open>
  With an inventory of two entries.
\<close>

theorem portoImagesPreloaded_no_requirement_witness:
  "RunCmd (inventoryHost inventory12) (calls startTrace) crictlImagesCmd =
     Inr \<lparr>Stdout = [], Output = []\<rparr> \<and>
   jsonUnmarshal (inventoryHost inventory12) [] = Inr \<lparr>Images = inventory12\<rparr> \<and>
   fst (portoImagesPreloaded (inventoryHost inventory12) [] startTrace) = True"
  using portoImagesPreloaded_no_requirement [of "inventoryHost inventory12" startTrace
      "\<lparr>Stdout = [], Output = []\<rparr>" "\<lparr>Images = inventory12\<rparr>"]
  by (simp add: host_defs)

text \<open>
  C1, as amended. With an inventory that was retrieved and parsed, and a normalization
  that is idempotent, \<open>portoImagesPreloaded\<close> answers true exactly when every required name,
  normalized, is equal to some tag of some inventory entry, the tag taken as the inventory
  lists it. The first required name without such a tag ends the check with the answer
  false, and the log line names it.
\<close>

theorem portoImagesPreloaded_matches:
  assumes run: "RunCmd h (calls s) crictlImagesCmd = Inr rr"
      and parse: "jsonUnmarshal h (Stdout rr) = Inr jsonImages"
      and idem: "\<forall>x. addRepoTagToImageName h (addRepoTagToImageName h x) =
                     addRepoTagToImageName h x"
  shows "fst (portoImagesPreloaded h images s) =
           (\<forall>i\<in>set images. \<exists>ji\<in>set (Images jsonImages).
               addRepoTagToImageName h i \<in> set (RepoTags ji)) \<and>
         (\<forall>pre i post.
            images = pre @ i # post \<and>
            (\<forall>p\<in>set pre. \<exists>ji\<in>set (Images jsonImages).
                addRepoTagToImageName h p \<in> set (RepoTags ji)) \<and>
            \<not> (\<exists>ji\<in>set (Images jsonImages). addRepoTagToImageName h i \<in> set (RepoTags ji)) \<longrightarrow>
            portoImagesPreloaded h images s =
              (False,
               klogf Info
                 (''couldn'' @ [CHR 0x27] @
                  ''t find preloaded image for %q. assuming images are not preloaded.'')
                 [ArgString (if \<forall>ji\<in>set (Images jsonImages). RepoTags ji = [] then i
                             else addRepoTagToImageName h i)]
                 (s\<lparr>calls := calls s @ [EvRunCmd crictlImagesCmd]\<rparr>)))"
proof -
  have unfold: "portoImagesPreloaded h images s =
      imagesLoop h images (Images jsonImages) (s\<lparr>calls := calls s @ [EvRunCmd crictlImagesCmd]\<rparr>)"
    using run parse by (simp add: portoImagesPreloaded_def runCmd_def invoke_def)
  show ?thesis
    unfolding unfold
    using imagesLoop_idem [OF idem] imagesLoop_first_unmatched [OF idem]
    by blast
qed

text \<open>
  With the inventory of two entries: both required images are found under their
  normalized names; of three required images the second is the first one missing.
\<close>

theorem portoImagesPreloaded_matches_witness:
  "RunCmd (inventoryHost inventory12) (calls startTrace) crictlImagesCmd =
     Inr \<lparr>Stdout = [], Output = []\<rparr> \<and>
   jsonUnmarshal (inventoryHost inventory12) [] = Inr \<lparr>Images = inventory12\<rparr> \<and>
   (\<forall>x. addRepoTagToImageName (inventoryHost inventory12)
           (addRepoTagToImageName (inventoryHost inventory12) x) =
         addRepoTagToImageName (inventoryHost inventory12) x) \<and>
   fst (portoImagesPreloaded (inventoryHost inventory12) [''img:v2'', ''img:v1''] startTrace) \<and>
   \<not> fst (portoImagesPreloaded (inventoryHost inventory12) [''img:v1'', ''img:v3'', ''img:v4'']
            startTrace) \<and>
   klog (snd (portoImagesPreloaded (inventoryHost inventory12) [''img:v1'', ''img:v3'', ''img:v4'']
            startTrace)) =
     [(Info, ''couldn'' @ [CHR 0x27] @
             ''t find preloaded image for %q. assuming images are not preloaded.'',
       [ArgString ''docker.io/img:v3''])]"
proof -
  let ?h = "inventoryHost inventory12"
  have norm: "addRepoTagToImageName (inventoryHost inv) = defaultRepoTag" for inv
    by (simp add: inventoryHost_def quietHost_def)
  have run: "RunCmd ?h (calls startTrace) crictlImagesCmd = Inr \<lparr>Stdout = [], Output = []\<rparr>"
    by (simp add: host_defs)
  have parse: "jsonUnmarshal ?h (Stdout \<lparr>Stdout = [], Output = []\<rparr>) = Inr \<lparr>Images = inventory12\<rparr>"
    by (simp add: host_defs)
  have idem: "\<forall>x. addRepoTagToImageName ?h (addRepoTagToImageName ?h x) =
                  addRepoTagToImageName ?h x"
    by (simp add: norm defaultRepoTag_idem)
  note main = portoImagesPreloaded_matches [OF run parse idem]
  have v1: "defaultRepoTag ''img:v1'' = ''docker.io/img:v1''"
   and v2: "defaultRepoTag ''img:v2'' = ''docker.io/img:v2''"
   and v3: "defaultRepoTag ''img:v3'' = ''docker.io/img:v3''"
    by (simp_all add: defaultRepoTag_def stringsContains_def sublist_code)
  have a: "fst (portoImagesPreloaded ?h [''img:v2'', ''img:v1''] startTrace)"
    using main [of "[''img:v2'', ''img:v1'']", THEN conjunct1]
    by (simp add: norm v1 v2 inventory12_def)
  have b: "\<not> fst (portoImagesPreloaded ?h [''img:v1'', ''img:v3'', ''img:v4''] startTrace)"
    using main [of "[''img:v1'', ''img:v3'', ''img:v4'']", THEN conjunct1]
    by (simp add: norm v1 v3 inventory12_def)
  have "[''img:v1'', ''img:v3'', ''img:v4''] = [''img:v1''] @ ''img:v3'' # [''img:v4''] \<and>
        (\<forall>p\<in>set [''img:v1'']. \<exists>ji\<in>set (Images \<lparr>Images = inventory12\<rparr>).
            addRepoTagToImageName ?h p \<in> set (RepoTags ji)) \<and>
        \<not> (\<exists>ji\<in>set (Images \<lparr>Images = inventory12\<rparr>).
            addRepoTagToImageName ?h ''img:v3'' \<in> set (RepoTags ji))"
    by (simp add: norm v1 v3 inventory12_def)
  with main [of "[''img:v1'', ''img:v3'', ''img:v4'']", THEN conjunct2]
  have "portoImagesPreloaded ?h [''img:v1'', ''img:v3'', ''img:v4''] startTrace =
          (False,
           klogf Info
             (''couldn'' @ [CHR 0x27] @
              ''t find preloaded image for %q. assuming images are not preloaded.'')
             [ArgString (if \<forall>ji\<in>set (Images \<lparr>Images = inventory12\<rparr>). RepoTags ji = []
                         then ''img:v3'' else addRepoTagToImageName ?h ''img:v3'')]
             (startTrace\<lparr>calls := calls startTrace @ [EvRunCmd crictlImagesCmd]\<rparr>))"
    by blast
  then have c: "klog (snd (portoImagesPreloaded ?h [''img:v1'', ''img:v3'', ''img:v4'']
            startTrace)) =
     [(Info, ''couldn'' @ [CHR 0x27] @
             ''t find preloaded image for %q. assuming images are not preloaded.'',
       [ArgString ''docker.io/img:v3''])]"
    by (simp add: norm v3 inventory12_def klogf_def startTrace_def)
  from run parse idem a b c show ?thesis by simp
qed

text \<open>
  The claim as the specification states it normalizes the candidate tags too. For the
  required image \<open>pause:3.7\<close> and an inventory that lists the tag \<open>pause:3.7\<close> as it is,
  the specification's matcher answers true and \<open>portoImagesPreloaded\<close> answers false: the
  requirement became \<open>docker.io/pause:3.7\<close>, the tag stayed as listed.
\<close>

theorem portoImagesPreloaded_raw_tag_counterexample:
  "RunCmd (inventoryHost [\<lparr>ID = ''sha256:03'', RepoTags = [''pause:3.7'']\<rparr>])
     (calls startTrace) crictlImagesCmd = Inr \<lparr>Stdout = [], Output = []\<rparr> \<and>
   jsonUnmarshal (inventoryHost [\<lparr>ID = ''sha256:03'', RepoTags = [''pause:3.7'']\<rparr>]) [] =
     Inr \<lparr>Images = [\<lparr>ID = ''sha256:03'', RepoTags = [''pause:3.7'']\<rparr>]\<rparr> \<and>
   specMatch
     (addRepoTagToImageName (inventoryHost [\<lparr>ID = ''sha256:03'', RepoTags = [''pause:3.7'']\<rparr>]))
     [''pause:3.7''] [\<lparr>ID = ''sha256:03'', RepoTags = [''pause:3.7'']\<rparr>] \<and>
   \<not> fst (portoImagesPreloaded
            (inventoryHost [\<lparr>ID = ''sha256:03'', RepoTags = [''pause:3.7'']\<rparr>])
            [''pause:3.7''] startTrace)"
  by (simp add: host_defs portoImagesPreloaded_def runCmd_def invoke_def specMatch_def
      defaultRepoTag_def stringsContains_def sublist_code klogf_def)

subsection \<open>Preload\<close>

lemma pullLoop_all_succeed:
  assumes "\<forall>j<length imageList.
             pullCRIImage h (calls s @ map EvPullCRIImage (take j imageList)) (imageList ! j) = None"
  shows "pullLoop h r imageList s = (None, s\<lparr>calls := calls s @ map EvPullCRIImage imageList\<rparr>)"
  using assms
proof (induction imageList arbitrary: s)
  case Nil
  show ?case by simp
next
  case (Cons img imageList)
  let ?s' = "s\<lparr>calls := calls s @ [EvPullCRIImage img]\<rparr>"
  from Cons.prems have "pullCRIImage h (calls s) img = None"
    by fastforce
  then have step: "pullLoop h r (img # imageList) s = pullLoop h r imageList ?s'"
    by (simp add: PullImage_def invoke_def)
  have "\<forall>j<length imageList.
          pullCRIImage h (calls ?s' @ map EvPullCRIImage (take j imageList)) (imageList ! j) = None"
  proof (intro allI impI)
    fix j assume "j < length imageList"
    then have "Suc j < length (img # imageList)" by simp
    with Cons.prems have
      "pullCRIImage h (calls s @ map EvPullCRIImage (take (Suc j) (img # imageList)))
         ((img # imageList) ! Suc j) = None"
      by blast
    then show "pullCRIImage h (calls ?s' @ map EvPullCRIImage (take j imageList))
                 (imageList ! j) = None"
      by simp
  qed
  then have "pullLoop h r imageList ?s' =
               (None, ?s'\<lparr>calls := calls ?s' @ map EvPullCRIImage imageList\<rparr>)"
    by (rule Cons.IH)
  with step show ?case by simp
qed

lemma pullLoop_first_failure:
  assumes "k < length imageList"
      and "\<forall>j<k. pullCRIImage h (calls s @ map EvPullCRIImage (take j imageList))
                    (imageList ! j) = None"
      and "pullCRIImage h (calls s @ map EvPullCRIImage (take k imageList)) (imageList ! k) =
             Some err"
  shows "pullLoop h r imageList s =
           (Some (ErrorsWrapfQ err ''pulling image %q'' (imageList ! k)),
            s\<lparr>calls := calls s @ map EvPullCRIImage (take (Suc k) imageList)\<rparr>)"
  using assms
proof (induction imageList arbitrary: s k)
  case Nil
  then show ?case by simp
next
  case (Cons img imageList)
  show ?case
  proof (cases k)
    case 0
    with Cons.prems show ?thesis by (simp add: PullImage_def invoke_def)
  next
    case (Suc k')
    let ?s' = "s\<lparr>calls := calls s @ [EvPullCRIImage img]\<rparr>"
    from Cons.prems(2) Suc have "pullCRIImage h (calls s) img = None"
      by fastforce
    then have step: "pullLoop h r (img # imageList) s = pullLoop h r imageList ?s'"
      by (simp add: PullImage_def invoke_def)
    have len: "k' < length imageList"
      using Cons.prems(1) Suc by simp
    have before: "\<forall>j<k'. pullCRIImage h (calls ?s' @ map EvPullCRIImage (take j imageList))
                    (imageList ! j) = None"
    proof (intro allI impI)
      fix j assume "j < k'"
      then have "Suc j < k" using Suc by simp
      with Cons.prems(2) have
        "pullCRIImage h (calls s @ map EvPullCRIImage (take (Suc j) (img # imageList)))
           ((img # imageList) ! Suc j) = None"
        by blast
      then show "pullCRIImage h (calls ?s' @ map EvPullCRIImage (take j imageList))
                   (imageList ! j) = None"
        by simp
    qed
    have at: "pullCRIImage h (calls ?s' @ map EvPullCRIImage (take k' imageList))
                (imageList ! k') = Some err"
      using Cons.prems(3) Suc by simp
    have "pullLoop h r imageList ?s' =
            (Some (ErrorsWrapfQ err ''pulling image %q'' (imageList ! k')),
             ?s'\<lparr>calls := calls ?s' @ map EvPullCRIImage (take (Suc k') imageList)\<rparr>)"
      by (rule Cons.IH [OF len before at])
    with step Suc show ?thesis by simp
  qed
qed

text \<open>
  C3. With a catalog that gives the required images, \<open>Preload\<close> first asks the matcher, which
  costs the one inventory command. When the matcher answers true, \<open>Preload\<close> returns success
  and makes no further call: no pull, no restart. Otherwise it pulls the images in the
  order of the list; when every pull succeeds it then restarts the service \<open>porto\<close> once, as
  its last call, and returns what the restart returns; when the pull of the image at
  position \<open>k\<close> is the first to fail, \<open>Preload\<close> returns that error wrapped with the name of
  the image, having pulled the images up to position \<open>k\<close> and nothing else.
\<close>

theorem Preload_pulls_all_or_none:
  assumes catalog: "Kubeadm h (kcImageRepository (KubernetesConfig cc))
                      (kcKubernetesVersion (KubernetesConfig cc)) = Inr imageList"
      and matcher: "portoImagesPreloaded h imageList s = (preloaded, s1)"
  shows "calls s1 = calls s @ [EvRunCmd crictlImagesCmd] \<and>
         (preloaded \<longrightarrow>
            Preload h r cc s =
              (None, klogf Info ''Images already preloaded, skipping extraction'' [] s1)) \<and>
         (\<not> preloaded \<and>
          (\<forall>j<length imageList.
              pullCRIImage h (calls s1 @ map EvPullCRIImage (take j imageList))
                (imageList ! j) = None) \<longrightarrow>
            Preload h r cc s =
              (InitRestart h (calls s1 @ map EvPullCRIImage imageList) ''porto'',
               s1\<lparr>calls := calls s1 @ map EvPullCRIImage imageList @
                              [EvInitRestart ''porto'']\<rparr>)) \<and>
         (\<forall>k err.
            \<not> preloaded \<and> k < length imageList \<and>
            (\<forall>j<k. pullCRIImage h (calls s1 @ map EvPullCRIImage (take j imageList))
                      (imageList ! j) = None) \<and>
            pullCRIImage h (calls s1 @ map EvPullCRIImage (take k imageList))
              (imageList ! k) = Some err \<longrightarrow>
            Preload h r cc s =
              (Some (ErrorsWrapfQ err ''pulling image %q'' (imageList ! k)),
               s1\<lparr>calls := calls s1 @ map EvPullCRIImage (take (Suc k) imageList)\<rparr>))"
proof (intro conjI impI allI)
  show "calls s1 = calls s @ [EvRunCmd crictlImagesCmd]"
    using calls_portoImagesPreloaded [of h imageList s] matcher by simp
next
  assume preloaded
  then show "Preload h r cc s =
      (None, klogf Info ''Images already preloaded, skipping extraction'' [] s1)"
    using catalog matcher by (simp add: Preload_def)
next
  assume a: "\<not> preloaded \<and>
     (\<forall>j<length imageList.
         pullCRIImage h (calls s1 @ map EvPullCRIImage (take j imageList)) (imageList ! j) = None)"
  then have "pullLoop h r imageList s1 =
               (None, s1\<lparr>calls := calls s1 @ map EvPullCRIImage imageList\<rparr>)"
    by (simp add: pullLoop_all_succeed)
  with a show "Preload h r cc s =
      (InitRestart h (calls s1 @ map EvPullCRIImage imageList) ''porto'',
       s1\<lparr>calls := calls s1 @ map EvPullCRIImage imageList @ [EvInitRestart ''porto'']\<rparr>)"
    using catalog matcher by (simp add: Preload_def Restart_def initRestart_def invoke_def)
next
  fix k err
  assume a: "\<not> preloaded \<and> k < length imageList \<and>
     (\<forall>j<k. pullCRIImage h (calls s1 @ map EvPullCRIImage (take j imageList))
               (imageList ! j) = None) \<and>
     pullCRIImage h (calls s1 @ map EvPullCRIImage (take k imageList)) (imageList ! k) = Some err"
  then have "pullLoop h r imageList s1 =
               (Some (ErrorsWrapfQ err ''pulling image %q'' (imageList ! k)),
                s1\<lparr>calls := calls s1 @ map EvPullCRIImage (take (Suc k) imageList)\<rparr>)"
    using pullLoop_first_failure [of k imageList h s1 err r] by blast
  with a show "Preload h r cc s =
      (Some (ErrorsWrapfQ err ''pulling image %q'' (imageList ! k)),
       s1\<lparr>calls := calls s1 @ map EvPullCRIImage (take (Suc k) imageList)\<rparr>)"
    using catalog matcher by (simp add: Preload_def)
qed

text \<open>
  Three runs: both required images in the inventory; the required image \<open>img:v3\<close>
  missing from it; and three required images of which the host refuses the second.
\<close>

theorem Preload_pulls_all_or_none_witness:
  "Preload (catalogHost [''img:v1'', ''img:v2''] inventory12) porto0 config0 startTrace =
     (None,
      \<lparr>calls = [EvRunCmd [''sudo'', ''crictl'', ''images'', ''--output'', ''json'']],
        klog = [(Info, ''all images are preloaded for porto runtime.'', []),
                (Info, ''Images already preloaded, skipping extraction'', [])]\<rparr>) \<and>
   fst (Preload (catalogHost [''img:v3''] inventory12) porto0 config0 startTrace) = None \<and>
   calls (snd (Preload (catalogHost [''img:v3''] inventory12) porto0 config0 startTrace)) =
     [EvRunCmd [''sudo'', ''crictl'', ''images'', ''--output'', ''json''],
      EvPullCRIImage ''img:v3'', EvInitRestart ''porto''] \<and>
   fst (Preload (refusingPullHost ''img:v4'' (catalogHost [''img:v3'', ''img:v4'', ''img:v5''] []))
          porto0 config0 startTrace) =
     Some (ErrorsWrapfQ (External ''pull failed'') ''pulling image %q'' ''img:v4'') \<and>
   calls (snd (Preload
                 (refusingPullHost ''img:v4'' (catalogHost [''img:v3'', ''img:v4'', ''img:v5''] []))
                 porto0 config0 startTrace)) =
     [EvRunCmd [''sudo'', ''crictl'', ''images'', ''--output'', ''json''],
      EvPullCRIImage ''img:v3'', EvPullCRIImage ''img:v4'']"
proof -
  let ?run = "EvRunCmd [''sudo'', ''crictl'', ''images'', ''--output'', ''json'']"
  let ?h1 = "catalogHost [''img:v1'', ''img:v2''] inventory12"
  let ?s1 = "\<lparr>calls = [?run],
               klog = [(Info, ''all images are preloaded for porto runtime.'', [])]\<rparr>"
  have m1: "portoImagesPreloaded ?h1 [''img:v1'', ''img:v2''] startTrace = (True, ?s1)"
    by (simp add: host_defs preload_defs)
  have c1: "Kubeadm ?h1 (kcImageRepository (KubernetesConfig config0))
              (kcKubernetesVersion (KubernetesConfig config0)) = Inr [''img:v1'', ''img:v2'']"
    by (simp add: host_defs)
  have a: "Preload ?h1 porto0 config0 startTrace =
     (None, \<lparr>calls = [?run],
        klog = [(Info, ''all images are preloaded for porto runtime.'', []),
                (Info, ''Images already preloaded, skipping extraction'', [])]\<rparr>)"
    using Preload_pulls_all_or_none [OF c1 m1, of porto0] by (simp add: klogf_def)
  let ?h2 = "catalogHost [''img:v3''] inventory12"
  let ?miss = "''couldn'' @ [CHR 0x27] @
               ''t find preloaded image for %q. assuming images are not preloaded.''"
  let ?s2 = "\<lparr>calls = [?run], klog = [(Info, ?miss, [ArgString ''docker.io/img:v3''])]\<rparr>"
  have m2: "portoImagesPreloaded ?h2 [''img:v3''] startTrace = (False, ?s2)"
    by (simp add: host_defs preload_defs)
  have c2: "Kubeadm ?h2 (kcImageRepository (KubernetesConfig config0))
              (kcKubernetesVersion (KubernetesConfig config0)) = Inr [''img:v3'']"
    by (simp add: host_defs)
  have p2: "\<forall>j<length [''img:v3''].
              pullCRIImage ?h2 (calls ?s2 @ map EvPullCRIImage (take j [''img:v3'']))
                ([''img:v3''] ! j) = None"
    by (simp add: host_defs)
  have b: "Preload ?h2 porto0 config0 startTrace =
     (None, ?s2\<lparr>calls := [?run, EvPullCRIImage ''img:v3'', EvInitRestart ''porto'']\<rparr>)"
    using Preload_pulls_all_or_none [OF c2 m2, of porto0] p2 by (simp add: host_defs)
  let ?l3 = "[''img:v3'', ''img:v4'', ''img:v5'']"
  let ?h3 = "refusingPullHost ''img:v4'' (catalogHost ?l3 [])"
  let ?s3 = "\<lparr>calls = [?run], klog = [(Info, ?miss, [ArgString ''img:v3''])]\<rparr>"
  have m3: "portoImagesPreloaded ?h3 ?l3 startTrace = (False, ?s3)"
    by (simp add: host_defs preload_defs)
  have c3: "Kubeadm ?h3 (kcImageRepository (KubernetesConfig config0))
              (kcKubernetesVersion (KubernetesConfig config0)) = Inr ?l3"
    by (simp add: host_defs)
  have p3: "\<not> False \<and> (1::nat) < length ?l3 \<and>
            (\<forall>j<1. pullCRIImage ?h3 (calls ?s3 @ map EvPullCRIImage (take j ?l3)) (?l3 ! j) = None) \<and>
            pullCRIImage ?h3 (calls ?s3 @ map EvPullCRIImage (take 1 ?l3)) (?l3 ! 1) =
              Some (External ''pull failed'')"
    by (simp add: host_defs)
  have c: "Preload ?h3 porto0 config0 startTrace =
     (Some (ErrorsWrapfQ (External ''pull failed'') ''pulling image %q'' ''img:v4''),
      ?s3\<lparr>calls := [?run, EvPullCRIImage ''img:v3'', EvPullCRIImage ''img:v4'']\<rparr>)"
    using Preload_pulls_all_or_none [OF c3 m3, of porto0, THEN conjunct2, THEN conjunct2,
        THEN conjunct2, THEN spec, THEN spec, THEN mp, OF p3]
    by simp
  from a b c show ?thesis by simp
qed

end
